theory Spec2Isabelle
  imports Main "HOL-Library.Word"
begin

section \<open>Software timers and time base of \<^verbatim>\<open>bsp_systimer.c\<close>\<close>

text \<open>
  The embedding follows \<^verbatim>\<open>Source/UpDrive/bsp_systimer.c\<close>. The module's variables
  (\<^verbatim>\<open>s_uiDelayCount\<close>, \<^verbatim>\<open>s_ucTimeOutFlag\<close>, \<^verbatim>\<open>s_tTmr\<close>, \<^verbatim>\<open>g_iRunTime\<close> and the
  function-static \<^verbatim>\<open>s_count\<close> of \<^verbatim>\<open>SysTick_ISR\<close>) are the fields of one record that
  every function takes and returns. Machine integers are words: \<^verbatim>\<open>uint8_t\<close> is
  \<open>8 word\<close>, \<^verbatim>\<open>uint32_t\<close> and \<^verbatim>\<open>int32_t\<close> are \<open>32 word\<close> (the signed one read with
  \<open>sint\<close> and compared with \<open>\<le>s\<close>).

  \<^verbatim>\<open>DISABLE_INT()\<close> and \<^verbatim>\<open>ENABLE_INT()\<close> bracket the multi-field writes of the
  foreground functions. The model is sequential: a foreground function and the tick
  handler are each one atomic step, which is what the critical sections provide.
\<close>

subsection \<open>Data\<close>

type_synonym uint8_t = "8 word"
type_synonym uint32_t = "32 word"
type_synonym int32_t = "32 word"

text \<open>
  Modelled from the spec: the struct \<^verbatim>\<open>SOFT_TMR\<close> and the constants \<^verbatim>\<open>TMR_ONCE_MODE\<close>,
  \<^verbatim>\<open>TMR_AUTO_MODE\<close> are declared in \<^verbatim>\<open>bsp.h\<close>, which is not among the sources. The
  four fields are the ones the code reads and writes; \<open>Count\<close> and \<open>PreLoad\<close> receive
  the \<^verbatim>\<open>uint32_t _period\<close>, \<open>Flag\<close> is compared with 1 and the function that reports it
  returns \<^verbatim>\<open>uint8_t\<close>, \<open>Mode\<close> is one of the two modes.
\<close>

datatype TMR_MODE_E = TMR_ONCE_MODE | TMR_AUTO_MODE

record SOFT_TMR =
  Mode :: TMR_MODE_E
  Flag :: uint8_t
  Count :: uint32_t
  PreLoad :: uint32_t

text \<open>
  The bank \<^verbatim>\<open>static SOFT_TMR s_tTmr[TMR_COUNT]\<close> is a list; \<^verbatim>\<open>TMR_COUNT\<close> (also from the
  missing header) is the length of that list, so the number of slots is a parameter of
  every statement. The loops of the source count the slots with a \<^verbatim>\<open>uint8_t\<close>, so a
  bank has at most 255 slots.

  The record is extensible: whatever the rest of the firmware owns (the state the
  external hooks work on) is the extension part \<open>more\<close> of the record.
\<close>

record sys =
  s_uiDelayCount :: uint32_t
  s_ucTimeOutFlag :: uint8_t
  s_tTmr :: "SOFT_TMR list"
  g_iRunTime :: int32_t
  s_count :: uint8_t

definition TMR_COUNT :: "'a sys_scheme \<Rightarrow> nat" where
  "TMR_COUNT s = length (s_tTmr s)"

text \<open>
  The three functions the handler calls, \<^verbatim>\<open>bsp_RunPer1ms\<close>, \<^verbatim>\<open>bsp_RunPer10ms\<close> and
  \<^verbatim>\<open>TPCRemarks(TaskComps)\<close>, are defined in other modules. They are parameters of the
  model: three state transformers.
\<close>

record 'a hooks =
  bsp_RunPer1ms :: "'a sys_scheme \<Rightarrow> 'a sys_scheme"
  bsp_RunPer10ms :: "'a sys_scheme \<Rightarrow> 'a sys_scheme"
  TPCRemarks :: "'a sys_scheme \<Rightarrow> 'a sys_scheme"

text \<open>
  A call either returns, or ends in the \<^verbatim>\<open>while(1);\<close> that waits for the watchdog:
  \<open>Halts s\<close> carries the state in which the caller spins for ever. The message that
  \<^verbatim>\<open>BSP_Printf\<close> writes before the halt goes to a channel outside this module and is
  not part of the state.
\<close>

datatype 'a outcome = Returns 'a | Halts 'a

subsection \<open>Initialisation\<close>

text \<open>
  The static initialisers (\<^verbatim>\<open>s_uiDelayCount = 0\<close>, \<^verbatim>\<open>s_ucTimeOutFlag = 0\<close>,
  \<^verbatim>\<open>g_iRunTime = 0\<close>, \<^verbatim>\<open>s_count = 0\<close>) followed by \<^verbatim>\<open>SysTickTimer_Init\<close>, which clears
  every slot, for a bank of \<open>n\<close> slots.
\<close>

definition SysTickTimer_Init :: "'a sys_scheme \<Rightarrow> 'a sys_scheme" where
  "SysTickTimer_Init s =
     s\<lparr>s_tTmr := map (\<lambda>t. t\<lparr>Count := 0, PreLoad := 0, Flag := 0, Mode := TMR_ONCE_MODE\<rparr>)
                     (s_tTmr s)\<rparr>"

definition boot :: "nat \<Rightarrow> 'a \<Rightarrow> 'a sys_scheme" where
  "boot n e = SysTickTimer_Init
     \<lparr>s_uiDelayCount = 0, s_ucTimeOutFlag = 0,
      s_tTmr = replicate n \<lparr>Mode = TMR_ONCE_MODE, Flag = 0, Count = 0, PreLoad = 0\<rparr>,
      g_iRunTime = 0, s_count = 0, \<dots> = e\<rparr>"

subsection \<open>The tick handler\<close>

definition bsp_SoftTimerDec :: "SOFT_TMR \<Rightarrow> SOFT_TMR" where
  "bsp_SoftTimerDec t =
     (if 0 < Count t then
        (let t1 = t\<lparr>Count := Count t - 1\<rparr> in
         if Count t1 = 0 then
           (let t2 = t1\<lparr>Flag := 1\<rparr> in
            if Mode t2 = TMR_AUTO_MODE then t2\<lparr>Count := PreLoad t2\<rparr> else t2)
         else t1)
      else t)"

definition SysTick_ISR :: "'a hooks \<Rightarrow> 'a sys_scheme \<Rightarrow> 'a sys_scheme" where
  "SysTick_ISR h s =
     (let s1 = (if 0 < s_uiDelayCount s then
                  (let d = s\<lparr>s_uiDelayCount := s_uiDelayCount s - 1\<rparr> in
                   if s_uiDelayCount d = 0 then d\<lparr>s_ucTimeOutFlag := 1\<rparr> else d)
                else s);
          s2 = s1\<lparr>s_tTmr := map bsp_SoftTimerDec (s_tTmr s1)\<rparr>;
          s3 = s2\<lparr>g_iRunTime := g_iRunTime s2 + 1\<rparr>;
          s4 = (if g_iRunTime s3 = 0x7FFFFFFF then s3\<lparr>g_iRunTime := 0\<rparr> else s3);
          s5 = bsp_RunPer1ms h s4;
          s6 = s5\<lparr>s_count := s_count s5 + 1\<rparr>;
          s7 = (if 10 \<le> s_count s6 then bsp_RunPer10ms h (s6\<lparr>s_count := 0\<rparr>) else s6)
      in TPCRemarks h s7)"

text \<open>\<open>run_ticks h n\<close>: the handler runs \<open>n\<close> times, nothing else in between.\<close>

fun run_ticks :: "'a hooks \<Rightarrow> nat \<Rightarrow> 'a sys_scheme \<Rightarrow> 'a sys_scheme" where
  "run_ticks h 0 s = s"
| "run_ticks h (Suc n) s = run_ticks h n (SysTick_ISR h s)"

subsection \<open>The software timer bank\<close>

definition bsp_StartTimer :: "uint8_t \<Rightarrow> uint32_t \<Rightarrow> 'a sys_scheme \<Rightarrow> 'a sys_scheme outcome" where
  "bsp_StartTimer tid period s =
     (if TMR_COUNT s \<le> unat tid then Halts s
      else Returns (s\<lparr>s_tTmr := (s_tTmr s)[unat tid :=
             (s_tTmr s ! unat tid)\<lparr>Count := period, PreLoad := period, Flag := 0,
                                   Mode := TMR_ONCE_MODE\<rparr>]\<rparr>))"

definition bsp_StartAutoTimer :: "uint8_t \<Rightarrow> uint32_t \<Rightarrow> 'a sys_scheme \<Rightarrow> 'a sys_scheme outcome" where
  "bsp_StartAutoTimer tid period s =
     (if TMR_COUNT s \<le> unat tid then Halts s
      else Returns (s\<lparr>s_tTmr := (s_tTmr s)[unat tid :=
             (s_tTmr s ! unat tid)\<lparr>Count := period, PreLoad := period, Flag := 0,
                                   Mode := TMR_AUTO_MODE\<rparr>]\<rparr>))"

definition bsp_StopTimer :: "uint8_t \<Rightarrow> 'a sys_scheme \<Rightarrow> 'a sys_scheme outcome" where
  "bsp_StopTimer tid s =
     (if TMR_COUNT s \<le> unat tid then Halts s
      else Returns (s\<lparr>s_tTmr := (s_tTmr s)[unat tid :=
             (s_tTmr s ! unat tid)\<lparr>Count := 0, Flag := 0, Mode := TMR_ONCE_MODE\<rparr>]\<rparr>))"

definition bsp_CheckTimer :: "uint8_t \<Rightarrow> 'a sys_scheme \<Rightarrow> uint8_t \<times> 'a sys_scheme" where
  "bsp_CheckTimer tid s =
     (if TMR_COUNT s \<le> unat tid then (0, s)
      else if Flag (s_tTmr s ! unat tid) = 1
      then (1, s\<lparr>s_tTmr := (s_tTmr s)[unat tid := (s_tTmr s ! unat tid)\<lparr>Flag := 0\<rparr>]\<rparr>)
      else (0, s))"

subsection \<open>The blocking delay\<close>

text \<open>
  \<^verbatim>\<open>bsp_DelayMS\<close> arms the countdown and then polls \<^verbatim>\<open>s_ucTimeOutFlag\<close> in a
  \<^verbatim>\<open>while (1)\<close> that only the tick handler can end. In the simulation the wait is a
  loop of its own: if the flag is 1 it ends, otherwise the next tick happens and it
  polls again (polls between two ticks see the same flag and are not counted). The
  loop need not end, so it is a partial function: \<open>None\<close> is a call that never returns;
  \<open>Some (k, s)\<close> is a call that returns in state \<open>s\<close> after \<open>k\<close> ticks.
\<close>

partial_function (option) DelayMS_wait :: "'a hooks \<Rightarrow> nat \<Rightarrow> 'a sys_scheme \<Rightarrow> (nat \<times> 'a sys_scheme) option" where
  "DelayMS_wait h k s =
     (if s_ucTimeOutFlag s = 1 then Some (k, s)
      else DelayMS_wait h (Suc k) (SysTick_ISR h s))"

definition DelayMS_arm :: "uint32_t \<Rightarrow> 'a sys_scheme \<Rightarrow> 'a sys_scheme" where
  "DelayMS_arm n s = s\<lparr>s_uiDelayCount := n, s_ucTimeOutFlag := 0\<rparr>"

definition bsp_DelayMS :: "'a hooks \<Rightarrow> uint32_t \<Rightarrow> 'a sys_scheme \<Rightarrow> (nat \<times> 'a sys_scheme) option" where
  "bsp_DelayMS h n s =
     (if n = 0 then Some (0, s)
      else DelayMS_wait h 0 (DelayMS_arm (if n = 1 then 2 else n) s))"

subsection \<open>The microsecond delay\<close>

text \<open>
  \<^verbatim>\<open>bsp_DelayUS\<close> reads three things the sources do not hold: the reload register
  \<^verbatim>\<open>SysTick->LOAD\<close>, the core clock \<^verbatim>\<open>SystemCoreClock\<close> and, again and again, the
  down-counter \<^verbatim>\<open>SysTick->VAL\<close>. They are inputs of the model: \<open>LOAD\<close>,
  \<open>SystemCoreClock\<close> and the list \<open>VAL\<close> of the successive values of the counter, one for
  each read, the first for the read before the loop. The loop returns \<open>None\<close> when the
  list ends before the loop does (the call has not returned within these reads), and
  otherwise the final \<^verbatim>\<open>tcnt\<close> with the number of reads the loop made.
\<close>

fun DelayUS_loop :: "uint32_t \<Rightarrow> uint32_t \<Rightarrow> uint32_t \<Rightarrow> uint32_t \<Rightarrow> nat \<Rightarrow> uint32_t list \<Rightarrow> (uint32_t \<times> nat) option" where
  "DelayUS_loop reload ticks told tcnt k [] = None"
| "DelayUS_loop reload ticks told tcnt k (tnow # vs) =
     (if tnow \<noteq> told then
        (let tcnt1 = (if tnow < told then tcnt + (told - tnow)
                      else tcnt + (reload - tnow + told))
         in if ticks \<le> tcnt1 then Some (tcnt1, Suc k)
            else DelayUS_loop reload ticks tnow tcnt1 (Suc k) vs)
      else DelayUS_loop reload ticks told tcnt (Suc k) vs)"

definition bsp_DelayUS :: "uint32_t \<Rightarrow> uint32_t \<Rightarrow> uint32_t \<Rightarrow> uint32_t list \<Rightarrow> (uint32_t \<times> nat) option" where
  "bsp_DelayUS LOAD SystemCoreClock n VAL =
     (case VAL of
        [] \<Rightarrow> None
      | told # vs \<Rightarrow> DelayUS_loop LOAD (n * (SystemCoreClock div 1000000)) told 0 0 vs)"

text \<open>
  The count the specification describes, on unbounded integers: between two successive
  reads the counter went down by \<open>old - new\<close> if the new value is smaller, by
  \<open>reload - new + old\<close> if it is greater (the counter was reloaded in between), by
  nothing if it is the same; \<open>elapsed_ticks\<close> adds this up along a list of reads.
\<close>

definition counter_decrease :: "uint32_t \<Rightarrow> uint32_t \<Rightarrow> uint32_t \<Rightarrow> int" where
  "counter_decrease reload old new =
     (if new < old then uint old - uint new
      else if old < new then uint reload - uint new + uint old
      else 0)"

fun elapsed_ticks :: "uint32_t \<Rightarrow> uint32_t list \<Rightarrow> int" where
  "elapsed_ticks reload (old # new # vs) =
     counter_decrease reload old new + elapsed_ticks reload (new # vs)"
| "elapsed_ticks reload vs = 0"

subsection \<open>The handler as the six steps of the specification\<close>

text \<open>
  The six steps of the specification's tick handler, each a function of its own, to be
  compared with \<open>SysTick_ISR\<close>: (1) if the delay's remaining ticks are above 0,
  decrement them and set \<open>expired\<close> when they reach 0; (2) apply the per-slot decrement to
  every slot; (3) advance the clock by 1 and reset it to 0 at the wrap point; (4) call
  the per-tick hook; (5) count the call in the sub-counter and, every tenth call, reset
  the sub-counter and call the per-10-tick hook; (6) call the task-bookkeeping hook.
\<close>

definition step1_delay :: "'a sys_scheme \<Rightarrow> 'a sys_scheme" where
  "step1_delay s =
     (if s_uiDelayCount s = 0 then s
      else if s_uiDelayCount s = 1 then s\<lparr>s_uiDelayCount := 0, s_ucTimeOutFlag := 1\<rparr>
      else s\<lparr>s_uiDelayCount := s_uiDelayCount s - 1\<rparr>)"

definition step2_timers :: "'a sys_scheme \<Rightarrow> 'a sys_scheme" where
  "step2_timers s = s\<lparr>s_tTmr := map bsp_SoftTimerDec (s_tTmr s)\<rparr>"

definition step3_clock :: "'a sys_scheme \<Rightarrow> 'a sys_scheme" where
  "step3_clock s =
     s\<lparr>g_iRunTime := (if g_iRunTime s + 1 = 0x7FFFFFFF then 0 else g_iRunTime s + 1)\<rparr>"

definition step4_per_tick :: "'a hooks \<Rightarrow> 'a sys_scheme \<Rightarrow> 'a sys_scheme" where
  "step4_per_tick h s = bsp_RunPer1ms h s"

definition step5_per_10 :: "'a hooks \<Rightarrow> 'a sys_scheme \<Rightarrow> 'a sys_scheme" where
  "step5_per_10 h s =
     (if 10 \<le> s_count s + 1 then bsp_RunPer10ms h (s\<lparr>s_count := 0\<rparr>)
      else s\<lparr>s_count := s_count s + 1\<rparr>)"

definition step6_task :: "'a hooks \<Rightarrow> 'a sys_scheme \<Rightarrow> 'a sys_scheme" where
  "step6_task h s = TPCRemarks h s"

text \<open>
  Hooks that record what they see: each appends its name, the clock and the flags of
  all slots, as they are when it is called, to a log kept in the extension part of the
  state.
\<close>

datatype hook_name = Per1ms | Per10ms | Remarks

type_synonym observation = "hook_name \<times> int32_t \<times> uint8_t list"

definition observe :: "hook_name \<Rightarrow> observation list sys_scheme \<Rightarrow> observation list sys_scheme" where
  "observe k s = s\<lparr>sys.more := sys.more s @ [(k, g_iRunTime s, map Flag (s_tTmr s))]\<rparr>"

definition recording_hooks :: "observation list hooks" where
  "recording_hooks =
     \<lparr>bsp_RunPer1ms = observe Per1ms, bsp_RunPer10ms = observe Per10ms,
      TPCRemarks = observe Remarks\<rparr>"

subsection \<open>The run-time clock\<close>

definition bsp_GetRunTime :: "'a sys_scheme \<Rightarrow> int32_t" where
  "bsp_GetRunTime s = g_iRunTime s"

definition bsp_CheckRunTime :: "'a sys_scheme \<Rightarrow> int32_t \<Rightarrow> int32_t" where
  "bsp_CheckRunTime s LastTime =
     (let now_time = g_iRunTime s
      in if LastTime \<le>s now_time then now_time - LastTime
         else 0x7FFFFFFF - LastTime + now_time)"

text \<open>
  The difference as the specification words it, on unbounded integers and with the
  wrap point as a parameter: \<open>now - last\<close> if \<open>now \<ge> last\<close>, else
  \<open>SENTINEL - last + now\<close>.
\<close>

definition elapsed_since :: "int \<Rightarrow> int \<Rightarrow> int \<Rightarrow> int" where
  "elapsed_since SENTINEL now past = (if past \<le> now then now - past else SENTINEL - past + now)"

subsection \<open>Simulated ticks\<close>

text \<open>
  \<open>poll h tid n\<close> runs \<open>n\<close> rounds, each one tick followed by one call of
  \<^verbatim>\<open>bsp_CheckTimer(tid)\<close>, and returns what the calls returned, first round first,
  with the final state.
\<close>

fun poll :: "'a hooks \<Rightarrow> uint8_t \<Rightarrow> nat \<Rightarrow> 'a sys_scheme \<Rightarrow> uint8_t list \<times> 'a sys_scheme" where
  "poll h tid 0 s = ([], s)"
| "poll h tid (Suc n) s =
     (case bsp_CheckTimer tid (SysTick_ISR h s) of
        (r, s1) \<Rightarrow> (case poll h tid n s1 of (rs, s2) \<Rightarrow> (r # rs, s2)))"

text \<open>
  The hooks are bodies of other modules. The statements about the timers, the delay
  and the clock hold for hooks that leave the variables of this module alone:
  \<open>hooks_frame h\<close>. \<open>idle_hooks\<close> are hooks that do nothing.
\<close>

definition core :: "'a sys_scheme \<Rightarrow> uint32_t \<times> uint8_t \<times> SOFT_TMR list \<times> int32_t \<times> uint8_t" where
  "core s = (s_uiDelayCount s, s_ucTimeOutFlag s, s_tTmr s, g_iRunTime s, s_count s)"

definition hooks_frame :: "'a hooks \<Rightarrow> bool" where
  "hooks_frame h \<longleftrightarrow>
     (\<forall>s. core (bsp_RunPer1ms h s) = core s)
     \<and> (\<forall>s. core (bsp_RunPer10ms h s) = core s)
     \<and> (\<forall>s. core (TPCRemarks h s) = core s)"

definition idle_hooks :: "'a hooks" where
  "idle_hooks = \<lparr>bsp_RunPer1ms = (\<lambda>s. s), bsp_RunPer10ms = (\<lambda>s. s), TPCRemarks = (\<lambda>s. s)\<rparr>"

text \<open>One round seen from one slot: the decrement of the tick, then the consuming read.\<close>

definition slot_round :: "SOFT_TMR \<Rightarrow> uint8_t \<times> SOFT_TMR" where
  "slot_round t =
     (let t1 = bsp_SoftTimerDec t in if Flag t1 = 1 then (1, t1\<lparr>Flag := 0\<rparr>) else (0, t1))"

fun slot_poll :: "nat \<Rightarrow> SOFT_TMR \<Rightarrow> uint8_t list \<times> SOFT_TMR" where
  "slot_poll 0 t = ([], t)"
| "slot_poll (Suc n) t =
     (case slot_round t of (r, t1) \<Rightarrow> (case slot_poll n t1 of (rs, t2) \<Rightarrow> (r # rs, t2)))"

section \<open>Auxiliary facts\<close>

subsection \<open>What one tick does to each variable\<close>

lemma frame_fields:
  assumes "hooks_frame h"
  shows "s_tTmr (bsp_RunPer1ms h s) = s_tTmr s" "s_tTmr (bsp_RunPer10ms h s) = s_tTmr s"
        "s_tTmr (TPCRemarks h s) = s_tTmr s"
        "g_iRunTime (bsp_RunPer1ms h s) = g_iRunTime s" "g_iRunTime (bsp_RunPer10ms h s) = g_iRunTime s"
        "g_iRunTime (TPCRemarks h s) = g_iRunTime s"
        "s_count (bsp_RunPer1ms h s) = s_count s" "s_count (bsp_RunPer10ms h s) = s_count s"
        "s_count (TPCRemarks h s) = s_count s"
        "s_uiDelayCount (bsp_RunPer1ms h s) = s_uiDelayCount s" "s_uiDelayCount (bsp_RunPer10ms h s) = s_uiDelayCount s"
        "s_uiDelayCount (TPCRemarks h s) = s_uiDelayCount s"
        "s_ucTimeOutFlag (bsp_RunPer1ms h s) = s_ucTimeOutFlag s" "s_ucTimeOutFlag (bsp_RunPer10ms h s) = s_ucTimeOutFlag s"
        "s_ucTimeOutFlag (TPCRemarks h s) = s_ucTimeOutFlag s"
  using assms unfolding hooks_frame_def core_def by simp_all

lemma idle_frame: "hooks_frame idle_hooks"
  by (simp add: hooks_frame_def idle_hooks_def)

lemma ISR_tmr: "hooks_frame h \<Longrightarrow> s_tTmr (SysTick_ISR h s) = map bsp_SoftTimerDec (s_tTmr s)"
  by (simp add: SysTick_ISR_def Let_def frame_fields)

lemma ISR_clock: "hooks_frame h \<Longrightarrow> g_iRunTime (SysTick_ISR h s) = (if g_iRunTime s + 1 = 0x7FFFFFFF then 0 else g_iRunTime s + 1)"
  by (simp add: SysTick_ISR_def Let_def frame_fields)

lemma ISR_count: "hooks_frame h \<Longrightarrow> s_count (SysTick_ISR h s) = (if 10 \<le> s_count s + 1 then 0 else s_count s + 1)"
  by (simp add: SysTick_ISR_def Let_def frame_fields)

lemma ISR_delay: "hooks_frame h \<Longrightarrow> s_uiDelayCount (SysTick_ISR h s) = (if 0 < s_uiDelayCount s then s_uiDelayCount s - 1 else s_uiDelayCount s)"
  by (simp add: SysTick_ISR_def Let_def frame_fields)


lemma ISR_flag: "hooks_frame h \<Longrightarrow> s_ucTimeOutFlag (SysTick_ISR h s) = (if s_uiDelayCount s = 1 then 1 else s_ucTimeOutFlag s)"
  by (auto simp add: SysTick_ISR_def Let_def frame_fields word_gt_0)

lemma round_slot:
  assumes "hooks_frame h" "unat tid < TMR_COUNT s"
  shows "fst (bsp_CheckTimer tid (SysTick_ISR h s)) = fst (slot_round (s_tTmr s ! unat tid))"
    and "s_tTmr (snd (bsp_CheckTimer tid (SysTick_ISR h s))) ! unat tid = snd (slot_round (s_tTmr s ! unat tid))"
    and "TMR_COUNT (snd (bsp_CheckTimer tid (SysTick_ISR h s))) = TMR_COUNT s"
  using assms
  by (simp_all add: bsp_CheckTimer_def TMR_COUNT_def ISR_tmr slot_round_def Let_def)

lemma poll_slot:
  "hooks_frame h \<Longrightarrow> unat tid < TMR_COUNT s \<Longrightarrow>
     fst (poll h tid n s) = fst (slot_poll n (s_tTmr s ! unat tid))
     \<and> s_tTmr (snd (poll h tid n s)) ! unat tid = snd (slot_poll n (s_tTmr s ! unat tid))
     \<and> TMR_COUNT (snd (poll h tid n s)) = TMR_COUNT s"
proof (induction n arbitrary: s)
  case 0
  then show ?case by simp
next
  case (Suc n)
  obtain r s1 where c: "bsp_CheckTimer tid (SysTick_ISR h s) = (r, s1)"
    by (cases "bsp_CheckTimer tid (SysTick_ISR h s)")
  obtain r' t1 where d: "slot_round (s_tTmr s ! unat tid) = (r', t1)"
    by (cases "slot_round (s_tTmr s ! unat tid)")
  from round_slot [OF Suc.prems, unfolded c d]
  have e: "r = r'" "s_tTmr s1 ! unat tid = t1" "TMR_COUNT s1 = TMR_COUNT s" by simp_all
  with Suc.prems have "unat tid < TMR_COUNT s1" by simp
  from Suc.IH [OF Suc.prems(1) this] e c d show ?case
    by (auto split: prod.splits)
qed

lemma map_upt_Suc_shift: "map f [0..<Suc n] = f 0 # map (\<lambda>k. f (Suc k)) [0..<n]"
  by (simp only: upt_conv_Cons [of 0 "Suc n"] map_Suc_upt [symmetric] list.map map_map comp_def)

lemma unat_eq_1_iff: "(unat (w :: 'a::len word) = Suc 0) = (w = 1)"
  by (simp add: word_unat_eq_iff [of w 1])

lemma slot_round_once:
  assumes "Mode t = TMR_ONCE_MODE" "Flag t = 0"
  shows "slot_round t = (if unat (Count t) = 1 then 1 else 0, t\<lparr>Count := (if Count t = 0 then 0 else Count t - 1)\<rparr>)"
  using assms
  by (auto simp add: slot_round_def bsp_SoftTimerDec_def Let_def word_gt_0 unat_eq_1_iff)

lemma slot_poll_once:
  "Mode t = TMR_ONCE_MODE \<Longrightarrow> Flag t = 0 \<Longrightarrow>
     fst (slot_poll n t) = map (\<lambda>k. if Suc k = unat (Count t) then 1 else 0) [0..<n]
     \<and> Flag (snd (slot_poll n t)) = 0 \<and> Mode (snd (slot_poll n t)) = TMR_ONCE_MODE"
proof (induction n arbitrary: t)
  case 0
  then show ?case by simp
next
  case (Suc n)
  let ?t1 = "t\<lparr>Count := (if Count t = 0 then 0 else Count t - 1)\<rparr>"
  have r: "slot_round t = (if unat (Count t) = 1 then 1 else 0, ?t1)"
    using Suc.prems by (rule slot_round_once)
  have m: "Mode ?t1 = TMR_ONCE_MODE" "Flag ?t1 = 0" using Suc.prems by simp_all
  have c: "unat (Count ?t1) = unat (Count t) - 1"
    by (simp add: unat_minus_one)
  have s: "(Suc k = unat (Count ?t1)) = (Suc (Suc k) = unat (Count t))" for k
    unfolding c by auto
  show ?case
    using Suc.IH [OF m] r
    by (simp only: slot_poll.simps map_upt_Suc_shift s split: prod.splits) auto
qed


lemma check_after_poll:
  assumes "hooks_frame h" "unat tid < TMR_COUNT s" "Flag (snd (slot_poll n (s_tTmr s ! unat tid))) = 0"
  shows "fst (bsp_CheckTimer tid (snd (poll h tid n s))) = 0"
  using poll_slot [OF assms(1,2), of n] assms(3)
  by (simp add: bsp_CheckTimer_def)

subsection \<open>Slots that are not counting\<close>

lemma SoftTimerDec_inert: "Count t = 0 \<Longrightarrow> bsp_SoftTimerDec t = t"
  by (simp add: bsp_SoftTimerDec_def)

lemma ticks_slot:
  "hooks_frame h \<Longrightarrow> i < TMR_COUNT s \<Longrightarrow>
     s_tTmr (run_ticks h n s) ! i = (bsp_SoftTimerDec ^^ n) (s_tTmr s ! i) \<and> TMR_COUNT (run_ticks h n s) = TMR_COUNT s"
proof (induction n arbitrary: s)
  case 0
  then show ?case by simp
next
  case (Suc n)
  have l: "i < TMR_COUNT (SysTick_ISR h s)"
    using Suc.prems by (simp add: TMR_COUNT_def ISR_tmr)
  show ?case
    using Suc.IH [OF Suc.prems(1) l] Suc.prems
    by (simp add: ISR_tmr TMR_COUNT_def funpow_swap1)
qed

lemma funpow_inert: "Count t = 0 \<Longrightarrow> (bsp_SoftTimerDec ^^ n) t = t"
  by (induction n) (simp_all add: SoftTimerDec_inert)

lemma slot_poll_inert: "Count t = 0 \<Longrightarrow> Flag t = 0 \<Longrightarrow> slot_poll n t = (replicate n 0, t)"
  by (induction n) (simp_all add: slot_round_def SoftTimerDec_inert)

lemma inert_slot:
  assumes "hooks_frame h" and "unat tid < TMR_COUNT s"
    and "Count (s_tTmr s ! unat tid) = 0" and "Flag (s_tTmr s ! unat tid) = 0"
  shows "fst (poll h tid n s) = replicate n 0"
    and "s_tTmr (run_ticks h n s) ! unat tid = s_tTmr s ! unat tid"
    and "fst (bsp_CheckTimer tid (run_ticks h n s)) = 0"
proof -
  show "fst (poll h tid n s) = replicate n 0"
    using poll_slot [OF assms(1,2), of n] slot_poll_inert [OF assms(3,4), of n] by simp
  show a: "s_tTmr (run_ticks h n s) ! unat tid = s_tTmr s ! unat tid"
    using ticks_slot [OF assms(1,2), of n] funpow_inert [OF assms(3), of n] by simp
  show "fst (bsp_CheckTimer tid (run_ticks h n s)) = 0"
    using a assms(4) by (simp add: bsp_CheckTimer_def)
qed

subsection \<open>A slot in auto-reload mode\<close>

lemma slot_round_auto:
  assumes "Mode t = TMR_AUTO_MODE" and "Flag t = 0" and "Count t \<noteq> 0"
  shows "fst (slot_round t) = (if Count t = 1 then 1 else 0)"
    and "Mode (snd (slot_round t)) = TMR_AUTO_MODE"
    and "Flag (snd (slot_round t)) = 0"
    and "PreLoad (snd (slot_round t)) = PreLoad t"
    and "Count (snd (slot_round t)) = (if Count t = 1 then PreLoad t else Count t - 1)"
  using assms
  by (auto simp add: slot_round_def bsp_SoftTimerDec_def Let_def word_gt_0)

lemma slot_poll_auto:
  "Mode t = TMR_AUTO_MODE \<Longrightarrow> Flag t = 0 \<Longrightarrow> unat (Count t) + d = unat (PreLoad t) \<Longrightarrow>
   d < unat (PreLoad t) \<Longrightarrow>
     fst (slot_poll n t) = map (\<lambda>k. if unat (PreLoad t) dvd Suc k + d then 1 else 0) [0..<n]
     \<and> Mode (snd (slot_poll n t)) = TMR_AUTO_MODE
     \<and> Flag (snd (slot_poll n t)) = 0
     \<and> PreLoad (snd (slot_poll n t)) = PreLoad t
     \<and> unat (Count (snd (slot_poll n t))) = unat (PreLoad t) - (n + d) mod unat (PreLoad t)"
proof (induction n arbitrary: t d)
  case 0
  then show ?case by simp
next
  case (Suc n)
  let ?P = "unat (PreLoad t)"
  let ?t1 = "snd (slot_round t)"
  have nz: "Count t \<noteq> 0"
    using Suc.prems(3,4) by (auto simp add: unat_eq_0 [symmetric] simp del: unat_eq_0)
  note r = slot_round_auto [OF Suc.prems(1,2) nz]
  have sp: "slot_poll (Suc n) t = (fst (slot_round t) # fst (slot_poll n ?t1), snd (slot_poll n ?t1))"
    by (simp split: prod.splits)
  show ?case
  proof (cases "Count t = 1")
    case True
    then have d: "Suc d = ?P" using Suc.prems(3) by simp
    have c1: "unat (Count ?t1) + 0 = unat (PreLoad ?t1)" "0 < unat (PreLoad ?t1)"
      using r True d by simp_all
    note ih = Suc.IH [OF r(2,3) c1, unfolded r(4)]
    have hd: "?P dvd Suc 0 + d" using d by simp
    have tl: "(?P dvd Suc (Suc k) + d) = (?P dvd Suc k + 0)" for k
    proof -
      have e: "Suc (Suc k) + d = Suc k + ?P" using d by simp
      show ?thesis by (simp only: e dvd_add_triv_right_iff add_0_right)
    qed
    have fin: "(Suc n + d) mod ?P = (n + 0) mod ?P"
    proof -
      have e: "Suc n + d = n + ?P" using d by simp
      show ?thesis by (simp only: e mod_add_self2 add_0_right)
    qed
    show ?thesis
      using ih r(1) True hd
      by (simp only: sp map_upt_Suc_shift tl fin fst_conv snd_conv if_True) simp
  next
    case False
    have c: "unat (Count t - 1) = unat (Count t) - 1"
      using nz by (rule unat_minus_one)
    have u: "1 < unat (Count t)"
      using nz False by (metis One_nat_def Suc_lessI unat_eq_1_iff unat_gt_0)
    have c1: "unat (Count ?t1) + Suc d = unat (PreLoad ?t1)" "Suc d < unat (PreLoad ?t1)"
      using r False c u Suc.prems(3) by simp_all
    note ih = Suc.IH [OF r(2,3) c1, unfolded r(4)]
    have hd: "\<not> ?P dvd Suc 0 + d"
      using u Suc.prems(3) by (auto dest!: dvd_imp_le)
    have tl: "(?P dvd Suc (Suc k) + d) = (?P dvd Suc k + Suc d)" for k
      by simp
    have fin: "(Suc n + d) mod ?P = (n + Suc d) mod ?P"
      by simp
    show ?thesis
      using ih r(1) False hd
      by (simp only: sp map_upt_Suc_shift tl fin fst_conv snd_conv if_False)
  qed
qed


subsection \<open>The clock and signed 32-bit values\<close>

lemma clock_step:
  assumes "unat (g :: int32_t) < 2147483647"
  shows "unat (if g + 1 = 0x7FFFFFFF then 0 else g + 1) = (unat g + 1) mod 2147483647"
proof -
  have a: "unat (g + 1) = unat g + 1"
    using assms by (simp add: unat_word_ariths)
  have b: "(g + 1 = 0x7FFFFFFF) = (unat g + 1 = 2147483647)"
    using a by (simp add: word_unat_eq_iff [of "g + 1"])
  show ?thesis
    using assms a b by auto
qed

lemma clock_after_ticks:
  "hooks_frame h \<Longrightarrow> unat (g_iRunTime s) < 2147483647 \<Longrightarrow>
     unat (g_iRunTime (run_ticks h n s)) = (unat (g_iRunTime s) + n) mod 2147483647"
proof (induction n arbitrary: s)
  case 0
  then show ?case by simp
next
  case (Suc n)
  have st: "unat (g_iRunTime (SysTick_ISR h s)) = (unat (g_iRunTime s) + 1) mod 2147483647"
    using clock_step [OF Suc.prems(2)] by (simp add: ISR_clock [OF Suc.prems(1)])
  then have lt: "unat (g_iRunTime (SysTick_ISR h s)) < 2147483647" by simp
  have "unat (g_iRunTime (run_ticks h (Suc n) s)) = ((unat (g_iRunTime s) + 1) mod 2147483647 + n) mod 2147483647"
    using Suc.IH [OF Suc.prems(1) lt] st by simp
  also have "\<dots> = (unat (g_iRunTime s) + Suc n) mod 2147483647"
    by (simp add: mod_add_left_eq)
  finally show ?case .
qed

lemma boot_clock: "g_iRunTime (boot N e) = 0"
  by (simp add: boot_def SysTickTimer_Init_def)

lemma sint_small:
  assumes "unat (g :: int32_t) < 2147483648"
  shows "sint g = int (unat g)"
proof -
  have u: "uint g = int (unat g)" by simp
  have "sint g = signed_take_bit 31 (uint g)"
    by (simp add: sint_uint)
  also have "\<dots> = uint g"
  proof (rule signed_take_bit_int_eq_self)
    have "- (2 ^ 31) \<le> (0 :: int)" by simp
    also have "0 \<le> uint g" by simp
    finally show "- (2 ^ 31) \<le> uint g" .
    have "int (unat g) < 2147483648" using assms by linarith
    then show "uint g < 2 ^ 31" by simp
  qed
  finally show ?thesis unfolding u .
qed

lemma sint_of_int_32:
  assumes "- 2147483648 \<le> k" and "k \<le> 2147483647"
  shows "sint (word_of_int k :: int32_t) = k"
proof -
  have "sint (word_of_int k :: int32_t) = signed_take_bit 31 k"
    by (simp add: sint_sbintrunc')
  also have "\<dots> = k"
    by (rule signed_take_bit_int_eq_self) (use assms in simp_all)
  finally show ?thesis .
qed

lemma CheckRunTime_word:
  "bsp_CheckRunTime s past =
     word_of_int (elapsed_since 2147483647 (sint (g_iRunTime s)) (sint past))"
proof -
  have a: "g_iRunTime s = word_of_int (sint (g_iRunTime s))" "past = word_of_int (sint past)"
    by simp_all
  have "g_iRunTime s - past = word_of_int (sint (g_iRunTime s) - sint past)"
    by (subst a(1), subst a(2)) (simp only: wi_hom_sub)
  moreover have "0x7FFFFFFF - past + g_iRunTime s
      = word_of_int (2147483647 - sint past + sint (g_iRunTime s))"
    by (simp add: wi_hom_syms)
  ultimately show ?thesis
    by (simp add: bsp_CheckRunTime_def elapsed_since_def Let_def word_sle_eq)
qed

subsection \<open>The handler step by step\<close>

lemma recording_frame: "hooks_frame recording_hooks"
  by (simp add: hooks_frame_def recording_hooks_def observe_def core_def)

lemma ISR_steps:
  "SysTick_ISR h s =
     step6_task h (step5_per_10 h (step4_per_tick h (step3_clock (step2_timers (step1_delay s)))))"
  by (simp add: SysTick_ISR_def step1_delay_def step2_timers_def step3_clock_def
      step4_per_tick_def step5_per_10_def step6_task_def Let_def word_gt_0)

lemma ISR_log:
  "sys.more (SysTick_ISR recording_hooks r) =
     sys.more r
     @ [(Per1ms, (if g_iRunTime r + 1 = 0x7FFFFFFF then 0 else g_iRunTime r + 1),
         map (\<lambda>t. Flag (bsp_SoftTimerDec t)) (s_tTmr r))]
     @ (if 10 \<le> s_count r + 1
        then [(Per10ms, (if g_iRunTime r + 1 = 0x7FFFFFFF then 0 else g_iRunTime r + 1),
               map (\<lambda>t. Flag (bsp_SoftTimerDec t)) (s_tTmr r))]
        else [])
     @ [(Remarks, (if g_iRunTime r + 1 = 0x7FFFFFFF then 0 else g_iRunTime r + 1),
         map (\<lambda>t. Flag (bsp_SoftTimerDec t)) (s_tTmr r))]"
  by (simp add: SysTick_ISR_def recording_hooks_def observe_def Let_def comp_def)

lemma ticks_Suc_end: "run_ticks h (Suc n) s = SysTick_ISR h (run_ticks h n s)"
  by (induction n arbitrary: s) simp_all

lemma count_step:
  assumes "unat (c :: uint8_t) < 10"
  shows "unat (if 10 \<le> c + 1 then 0 else c + 1) = Suc (unat c) mod 10"
proof -
  have a: "unat (c + 1) = unat c + 1"
    using assms by (simp add: unat_word_ariths)
  have b: "(10 \<le> c + 1) = (10 \<le> unat c + 1)"
    using a by (simp add: word_le_nat_alt)
  show ?thesis
  proof (cases "unat c = 9")
    case True
    then show ?thesis using a b by simp
  next
    case False
    then have "unat c < 9" using assms by linarith
    then show ?thesis using a b by simp
  qed
qed

lemma count_after_ticks:
  "hooks_frame h \<Longrightarrow> unat (s_count (run_ticks h n (boot N e))) = n mod 10"
proof (induction n)
  case 0
  then show ?case by (simp add: boot_def SysTickTimer_Init_def)
next
  case (Suc n)
  have lt: "unat (s_count (run_ticks h n (boot N e))) < 10"
    using Suc by simp
  show ?case
    using count_step [OF lt] Suc
    by (simp only: ticks_Suc_end ISR_count [OF Suc.prems] mod_Suc_eq)
qed


lemma tenth_tick:
  assumes "hooks_frame h"
  shows "(10 \<le> s_count (run_ticks h n (boot N e)) + 1) = (10 dvd Suc n)"
proof -
  let ?c = "s_count (run_ticks h n (boot N e))"
  have u: "unat ?c = n mod 10" using assms by (rule count_after_ticks)
  then have lt: "unat ?c < 10" by simp
  have a: "unat (?c + 1) = unat ?c + 1"
    using lt by (simp add: unat_word_ariths)
  have "(10 \<le> ?c + 1) = (10 \<le> unat ?c + 1)"
    using a by (simp add: word_le_nat_alt)
  also have "\<dots> = (Suc (n mod 10) = 10)"
    unfolding u using mod_less_divisor [of 10 n] by linarith
  also have "\<dots> = (10 dvd Suc n)"
    by (auto simp add: mod_Suc dvd_eq_mod_eq_0)
  finally show ?thesis .
qed

subsection \<open>The countdown of the blocking delay\<close>

lemma delay_countdown:
  "hooks_frame h \<Longrightarrow> s_ucTimeOutFlag s = 0 \<Longrightarrow> k \<le> unat (s_uiDelayCount s) \<Longrightarrow>
     unat (s_uiDelayCount (run_ticks h k s)) = unat (s_uiDelayCount s) - k
     \<and> s_ucTimeOutFlag (run_ticks h k s) = (if 0 < k \<and> k = unat (s_uiDelayCount s) then 1 else 0)"
proof (induction k arbitrary: s)
  case 0
  then show ?case by simp
next
  case (Suc k)
  let ?c = "s_uiDelayCount s"
  let ?s1 = "SysTick_ISR h s"
  have nz: "?c \<noteq> 0" using Suc.prems(3) by (auto simp add: unat_eq_0 [symmetric] simp del: unat_eq_0)
  have c1: "s_uiDelayCount ?s1 = ?c - 1"
    using nz by (simp add: ISR_delay [OF Suc.prems(1)] word_gt_0)
  have u1: "unat (s_uiDelayCount ?s1) = unat ?c - 1"
    unfolding c1 using nz by (rule unat_minus_one)
  have f1: "s_ucTimeOutFlag ?s1 = (if ?c = 1 then 1 else 0)"
    using Suc.prems(2) by (simp add: ISR_flag [OF Suc.prems(1)])
  show ?case
  proof (cases "?c = 1")
    case True
    then have k: "k = 0" using Suc.prems(3) by simp
    show ?thesis using True k c1 f1 by simp
  next
    case False
    have le: "k \<le> unat (s_uiDelayCount ?s1)" using Suc.prems(3) u1 by simp
    have f0: "s_ucTimeOutFlag ?s1 = 0" using f1 False by simp
    have "0 < unat (s_uiDelayCount ?s1)"
      using False nz u1 by (metis One_nat_def Suc_lessI unat_eq_1_iff unat_gt_0 zero_less_diff)
    then show ?thesis
      using Suc.IH [OF Suc.prems(1) f0 le] u1 Suc.prems(3) by auto
  qed
qed

lemma wait_returns:
  "hooks_frame h \<Longrightarrow> s_ucTimeOutFlag s = 0 \<Longrightarrow> unat (s_uiDelayCount s) = Suc m \<Longrightarrow>
     DelayMS_wait h k s = Some (k + Suc m, run_ticks h (Suc m) s)"
proof (induction m arbitrary: s k)
  case 0
  have c: "s_uiDelayCount s = 1" using 0(3) by (simp add: unat_eq_1_iff)
  have f1: "s_ucTimeOutFlag (SysTick_ISR h s) = 1"
    using c by (simp add: ISR_flag [OF 0(1)])
  show ?case
    using 0(2) f1
    by (subst DelayMS_wait.simps, simp, subst DelayMS_wait.simps, simp)
next
  case (Suc m)
  let ?s1 = "SysTick_ISR h s"
  have nz: "s_uiDelayCount s \<noteq> 0" using Suc.prems(3) by (auto simp add: unat_eq_0 [symmetric] simp del: unat_eq_0)
  have n1: "s_uiDelayCount s \<noteq> 1" using Suc.prems(3) by auto
  have c1: "s_uiDelayCount ?s1 = s_uiDelayCount s - 1"
    using nz by (simp add: ISR_delay [OF Suc.prems(1)] word_gt_0)
  have u1: "unat (s_uiDelayCount ?s1) = Suc m"
    unfolding c1 using unat_minus_one [OF nz] Suc.prems(3) by simp
  have f0: "s_ucTimeOutFlag ?s1 = 0"
    using Suc.prems(2) n1 by (simp add: ISR_flag [OF Suc.prems(1)])
  show ?case
    using Suc.prems(2) Suc.IH [OF Suc.prems(1) f0 u1, of "Suc k"]
    by (subst DelayMS_wait.simps) simp
qed


subsection \<open>The loop of the microsecond delay\<close>

lemma decrease_word:
  "tnow \<noteq> told \<Longrightarrow>
     (if tnow < told then tcnt + (told - tnow) else tcnt + (reload - tnow + told))
     = tcnt + word_of_int (counter_decrease reload told tnow)"
proof -
  assume ne: "tnow \<noteq> told"
  have a: "told - tnow = word_of_int (uint told - uint tnow)"
    by (rule word_sub_wi)
  have b: "reload - tnow + told = word_of_int (uint reload - uint tnow + uint told)"
    by (simp add: wi_hom_syms)
  have c: "\<not> tnow < told \<Longrightarrow> told < tnow"
    using ne by (simp add: not_less order_le_less)
  show ?thesis
    using a b c by (auto simp add: counter_decrease_def)
qed

lemma decrease_same: "counter_decrease reload v v = 0"
  by (simp add: counter_decrease_def)

lemma DelayUS_loop_Some:
  "DelayUS_loop reload ticks told tcnt k vs = Some (r, j) \<Longrightarrow>
     \<exists>m. j = k + Suc m \<and> m < length vs
       \<and> r = tcnt + word_of_int (elapsed_ticks reload (told # take (Suc m) vs))
       \<and> ticks \<le> r"
proof (induction vs arbitrary: told tcnt k)
  case Nil
  then show ?case by simp
next
  case (Cons tnow vs)
  show ?case
  proof (cases "tnow = told")
    case True
    with Cons.prems have "DelayUS_loop reload ticks told tcnt (Suc k) vs = Some (r, j)"
      by simp
    from Cons.IH [OF this] obtain m where m: "j = Suc k + Suc m" "m < length vs"
      "r = tcnt + word_of_int (elapsed_ticks reload (told # take (Suc m) vs))" "ticks \<le> r"
      by blast
    have "elapsed_ticks reload (told # take (Suc (Suc m)) (tnow # vs))
        = elapsed_ticks reload (told # take (Suc m) vs)"
      using True by (simp add: decrease_same)
    with m show ?thesis
      by (intro exI [of _ "Suc m"]) simp
  next
    case False
    define tcnt1 where "tcnt1 = tcnt + word_of_int (counter_decrease reload told tnow)"
    have t1: "(if tnow < told then tcnt + (told - tnow) else tcnt + (reload - tnow + told)) = tcnt1"
      unfolding tcnt1_def using False by (rule decrease_word)
    show ?thesis
    proof (cases "ticks \<le> tcnt1")
      case True
      with Cons.prems False t1 have "r = tcnt1" "j = Suc k"
        by (simp_all add: Let_def)
      then show ?thesis
        using True by (intro exI [of _ 0]) (simp add: tcnt1_def)
    next
      case nr: False
      with Cons.prems False t1
      have "DelayUS_loop reload ticks tnow tcnt1 (Suc k) vs = Some (r, j)"
        by (simp add: Let_def)
      from Cons.IH [OF this] obtain m where m: "j = Suc k + Suc m" "m < length vs"
        "r = tcnt1 + word_of_int (elapsed_ticks reload (tnow # take (Suc m) vs))" "ticks \<le> r"
        by blast
      have "r = tcnt + word_of_int (elapsed_ticks reload (told # take (Suc (Suc m)) (tnow # vs)))"
        using m(3) by (simp add: tcnt1_def wi_hom_syms)
      with m show ?thesis
        by (intro exI [of _ "Suc m"]) simp
    qed
  qed
qed

lemma decrease_nonneg:
  "new \<le> reload \<Longrightarrow> 0 \<le> counter_decrease reload old new"
  by (auto simp add: counter_decrease_def word_less_def word_le_def)

lemma elapsed_nonneg:
  "\<forall>v \<in> set vs. v \<le> reload \<Longrightarrow> 0 \<le> elapsed_ticks reload vs"
  by (induction reload vs rule: elapsed_ticks.induct) (simp_all add: decrease_nonneg)


lemma DelayUS_Some:
  assumes "bsp_DelayUS LOAD SystemCoreClock n VAL = Some (tcnt, k)"
  shows "0 < k \<and> k < length VAL
       \<and> tcnt = word_of_int (elapsed_ticks LOAD (take (Suc k) VAL))
       \<and> n * (SystemCoreClock div 1000000) \<le> tcnt"
proof (cases VAL)
  case Nil
  with assms show ?thesis by (simp add: bsp_DelayUS_def)
next
  case (Cons told vs)
  with assms
  have "DelayUS_loop LOAD (n * (SystemCoreClock div 1000000)) told 0 0 vs = Some (tcnt, k)"
    by (simp add: bsp_DelayUS_def)
  from DelayUS_loop_Some [OF this] obtain m where m: "k = Suc m" "m < length vs"
    "tcnt = word_of_int (elapsed_ticks LOAD (told # take (Suc m) vs))"
    "n * (SystemCoreClock div 1000000) \<le> tcnt"
    by auto
  then show ?thesis using Cons by simp
qed

lemma target_no_overflow:
  assumes "unat n * (unat c div 1000000) < 2 ^ 32"
  shows "uint ((n :: uint32_t) * (c div 1000000)) = int (unat n * (unat c div 1000000))"
proof -
  have d: "unat (c div 1000000) = unat c div 1000000"
    by (simp add: unat_div)
  have "unat (n * (c div 1000000)) = unat n * unat (c div 1000000)"
    using assms unfolding d [symmetric] by (simp add: unat_mult_lem [THEN iffD1])
  then have "int (unat (n * (c div 1000000))) = int (unat n * (unat c div 1000000))"
    unfolding d by simp
  then show ?thesis by simp
qed

lemma uint_of_nonneg:
  assumes "0 \<le> e"
  shows "uint (word_of_int e :: uint32_t) \<le> e"
proof -
  have "uint (word_of_int e :: uint32_t) = e mod 2 ^ 32"
    by (simp add: uint_word_of_int)
  also have "\<dots> \<le> e"
    using assms by (rule zmod_le_nonneg_dividend)
  finally show ?thesis .
qed

text \<open>
  What the loop does guarantee. When the call returns it has made at least one read in
  its loop, and \<^verbatim>\<open>tcnt\<close> is the sum, in 32-bit arithmetic, of what the counter went
  down by between successive reads. That count is not below the target the code
  computes, the 32-bit product \<open>n * (SystemCoreClock / 1000000)\<close>; if no read exceeds
  the reload value and the product with the truncated quotient does not overflow 32
  bits, the counter has really gone down by at least that product. The example runs
  over a reload of the counter.
\<close>

lemma DelayUS_target_reached:
  assumes "bsp_DelayUS LOAD SystemCoreClock n VAL = Some (tcnt, k)"
  shows "0 < k \<and> k < length VAL
       \<and> tcnt = word_of_int (elapsed_ticks LOAD (take (Suc k) VAL))
       \<and> n * (SystemCoreClock div 1000000) \<le> tcnt
       \<and> ((\<forall>v \<in> set VAL. v \<le> LOAD) \<and> unat n * (unat SystemCoreClock div 1000000) < 2 ^ 32 \<longrightarrow>
            int (unat n * (unat SystemCoreClock div 1000000))
              \<le> elapsed_ticks LOAD (take (Suc k) VAL))"
proof -
  note s = DelayUS_Some [OF assms]
  let ?e = "elapsed_ticks LOAD (take (Suc k) VAL)"
  have le: "n * (SystemCoreClock div 1000000) \<le> tcnt"
    and eq: "tcnt = word_of_int ?e"
    using s by blast+
  have "int (unat n * (unat SystemCoreClock div 1000000)) \<le> ?e"
    if hw: "\<forall>v \<in> set VAL. v \<le> LOAD"
      and no: "unat n * (unat SystemCoreClock div 1000000) < 2 ^ 32"
  proof -
    have "\<forall>v \<in> set (take (Suc k) VAL). v \<le> LOAD"
      using hw by (meson in_set_takeD)
    then have nn: "0 \<le> ?e" by (rule elapsed_nonneg)
    have "int (unat n * (unat SystemCoreClock div 1000000))
        = uint (n * (SystemCoreClock div 1000000))"
      using target_no_overflow [OF no] by simp
    also have "\<dots> \<le> uint tcnt"
      using le by (simp only: word_le_def)
    also have "\<dots> \<le> ?e"
      by (subst eq) (rule uint_of_nonneg [OF nn])
    finally show ?thesis .
  qed
  with s show ?thesis by blast
qed

lemma DelayUS_reload_example:
  "bsp_DelayUS 71999 72000000 10 [500, 200, 71900, 71500, 71000] = Some (999, 3)
   \<and> (3 :: nat) < length [500, 200, 71900, 71500, 71000 :: uint32_t]
   \<and> elapsed_ticks 71999 (take (Suc 3) [500, 200, 71900, 71500, 71000]) = 999
   \<and> (720 :: uint32_t) \<le> 999
   \<and> int (unat (10 :: uint32_t) * (unat (72000000 :: uint32_t) div 1000000)) \<le> 999"
proof -
  have r: "bsp_DelayUS 71999 72000000 10 [500, 200, 71900, 71500, 71000] = Some (999, 3)"
    by (simp add: bsp_DelayUS_def)
  have e: "elapsed_ticks 71999 (take (Suc 3) [500, 200, 71900, 71500, 71000]) = 999"
    by (simp add: counter_decrease_def)
  have hw: "\<forall>v \<in> set [500, 200, 71900, 71500, 71000 :: uint32_t]. v \<le> 71999"
    by simp
  have no: "unat (10 :: uint32_t) * (unat (72000000 :: uint32_t) div 1000000) < 2 ^ 32"
    by simp
  have t: "int (unat (10 :: uint32_t) * (unat (72000000 :: uint32_t) div 1000000))
      \<le> elapsed_ticks 71999 (take (Suc 3) [500, 200, 71900, 71500, 71000])"
    using DelayUS_target_reached [OF r] hw no by blast
  show ?thesis
    using r t unfolding e by simp
qed

text \<open>
  The quotient \<open>SystemCoreClock / 1000000\<close> is truncated before the multiplication: at
  1.5 MHz a request of 1000 microseconds, 1500 ticks, has the target 1000.
\<close>

lemma DelayUS_truncation_example:
  "bsp_DelayUS 1499 1500000 1000 [1400, 400] = Some (1000, 1)
   \<and> elapsed_ticks 1499 [1400, 400] = 1000
   \<and> (1000 :: int) * 1000000 < int (unat (1000 :: uint32_t) * unat (1500000 :: uint32_t))"
  by (simp add: bsp_DelayUS_def counter_decrease_def)

section \<open>Order of the steps of the tick handler\<close>

text \<open>
  C3. Every call of \<open>SysTick_ISR\<close> is the six steps of the specification in their order:
  delay countdown, decrement of every slot, clock advance with wrap, per-tick hook,
  per-10-tick hook (only when the sub-counter reaches 10, after resetting it), task
  hook. With the recording hooks, the log of one call gains the per-tick entry, then
  the per-10-tick entry if it is due, then the task entry, and each entry holds the
  clock and the slot flags as this same call has just updated them. For hooks that
  leave the module's variables alone, the sub-counter is reset exactly when the
  per-10-tick hook is called, and after start-up that is in the calls whose number is a
  multiple of 10.
\<close>

theorem tick_handler_order:
  "SysTick_ISR h s =
     step6_task h (step5_per_10 h (step4_per_tick h (step3_clock (step2_timers (step1_delay s)))))
   \<and> sys.more (SysTick_ISR recording_hooks r) =
       sys.more r
       @ [(Per1ms, (if g_iRunTime r + 1 = 0x7FFFFFFF then 0 else g_iRunTime r + 1),
           map (\<lambda>t. Flag (bsp_SoftTimerDec t)) (s_tTmr r))]
       @ (if 10 \<le> s_count r + 1
          then [(Per10ms, (if g_iRunTime r + 1 = 0x7FFFFFFF then 0 else g_iRunTime r + 1),
                 map (\<lambda>t. Flag (bsp_SoftTimerDec t)) (s_tTmr r))]
          else [])
       @ [(Remarks, (if g_iRunTime r + 1 = 0x7FFFFFFF then 0 else g_iRunTime r + 1),
           map (\<lambda>t. Flag (bsp_SoftTimerDec t)) (s_tTmr r))]
   \<and> (hooks_frame h \<longrightarrow>
        s_count (SysTick_ISR h s) = (if 10 \<le> s_count s + 1 then 0 else s_count s + 1)
        \<and> (10 \<le> s_count (run_ticks h n (boot N e)) + 1) = (10 dvd Suc n))"
  using ISR_steps [of h s] ISR_log [of r] ISR_count [of h s] tenth_tick [of h n N e]
  by blast

theorem tick_handler_order_witness:
  "hooks_frame recording_hooks
   \<and> sys.more (SysTick_ISR recording_hooks
        \<lparr>s_uiDelayCount = 0, s_ucTimeOutFlag = 0,
         s_tTmr = [\<lparr>Mode = TMR_ONCE_MODE, Flag = 0, Count = 1, PreLoad = 1\<rparr>,
                   \<lparr>Mode = TMR_AUTO_MODE, Flag = 0, Count = 2, PreLoad = 5\<rparr>],
         g_iRunTime = 41, s_count = 9, \<dots> = []\<rparr>) =
       [(Per1ms, 42, [1, 0]), (Per10ms, 42, [1, 0]), (Remarks, 42, [1, 0])]
   \<and> s_count (SysTick_ISR recording_hooks
        \<lparr>s_uiDelayCount = 0, s_ucTimeOutFlag = 0,
         s_tTmr = [\<lparr>Mode = TMR_ONCE_MODE, Flag = 0, Count = 1, PreLoad = 1\<rparr>,
                   \<lparr>Mode = TMR_AUTO_MODE, Flag = 0, Count = 2, PreLoad = 5\<rparr>],
         g_iRunTime = 41, s_count = 9, \<dots> = []\<rparr>) = 0
   \<and> (10 :: uint8_t) \<le> s_count (run_ticks recording_hooks 9 (boot 2 [])) + 1"
proof -
  let ?r = "\<lparr>s_uiDelayCount = 0, s_ucTimeOutFlag = 0,
         s_tTmr = [\<lparr>Mode = TMR_ONCE_MODE, Flag = 0, Count = 1, PreLoad = 1\<rparr>,
                   \<lparr>Mode = TMR_AUTO_MODE, Flag = 0, Count = 2, PreLoad = 5\<rparr>],
         g_iRunTime = 41, s_count = 9, \<dots> = []\<rparr> :: observation list sys_scheme"
  have f: "hooks_frame recording_hooks"
    by (rule recording_frame)
  have d: "(10 :: nat) dvd Suc 9" by simp
  show ?thesis
    using f d tick_handler_order [of recording_hooks ?r ?r 9 2 "[]", THEN conjunct2]
    by (simp add: bsp_SoftTimerDec_def)
qed

section \<open>One-shot timers\<close>

text \<open>
  C1. For a valid identifier and a period \<open>p > 0\<close>: after \<^verbatim>\<open>bsp_StartTimer(tid, p)\<close>,
  with \<^verbatim>\<open>bsp_CheckTimer(tid)\<close> called after every tick, the call after tick \<open>k\<close>
  returns 1 exactly when \<open>k = p\<close> and 0 on every other tick, before and after, for
  any number \<open>n\<close> of ticks. A further call with no tick in between returns 0: after
  the round in which the expiry was reported (\<open>n = p\<close>) the expiry is not reported again.
\<close>

theorem start_once_expires_once:
  assumes "hooks_frame h" and "unat tid < TMR_COUNT s" and "0 < p"
  shows "\<exists>s1. bsp_StartTimer tid p s = Returns s1
           \<and> fst (poll h tid n s1) = map (\<lambda>k. if Suc k = unat p then 1 else 0) [0..<n]
           \<and> fst (bsp_CheckTimer tid (snd (poll h tid n s1))) = 0"
proof -
  define s1 where "s1 = s\<lparr>s_tTmr := (s_tTmr s)[unat tid :=
             (s_tTmr s ! unat tid)\<lparr>Count := p, PreLoad := p, Flag := 0, Mode := TMR_ONCE_MODE\<rparr>]\<rparr>"
  have a: "bsp_StartTimer tid p s = Returns s1"
    using assms(2) by (simp add: bsp_StartTimer_def s1_def)
  have v: "unat tid < TMR_COUNT s1"
    using assms(2) by (simp add: s1_def TMR_COUNT_def)
  let ?t = "s_tTmr s1 ! unat tid"
  have t: "Mode ?t = TMR_ONCE_MODE" "Flag ?t = 0" "Count ?t = p"
    using assms(2) by (simp_all add: s1_def TMR_COUNT_def)
  note o = slot_poll_once [OF t(1,2), of n, unfolded t(3)]
  have "fst (poll h tid n s1) = map (\<lambda>k. if Suc k = unat p then 1 else 0) [0..<n]"
    using poll_slot [OF assms(1) v, of n] o by simp
  moreover have "fst (bsp_CheckTimer tid (snd (poll h tid n s1))) = 0"
    using check_after_poll [OF assms(1) v] o by simp
  ultimately show ?thesis using a by simp
qed

theorem start_once_expires_once_witness:
  "hooks_frame (idle_hooks :: unit hooks) \<and> unat (2 :: uint8_t) < TMR_COUNT (boot 4 ()) \<and> (0 :: uint32_t) < 3
   \<and> (\<exists>s1. bsp_StartTimer 2 3 (boot 4 ()) = Returns s1
           \<and> fst (poll idle_hooks 2 5 s1) = [0, 0, 1, 0, 0]
           \<and> fst (bsp_CheckTimer 2 (snd (poll idle_hooks 2 5 s1))) = 0)"
proof -
  have f: "hooks_frame (idle_hooks :: unit hooks)"
    by (simp add: hooks_frame_def idle_hooks_def)
  have v: "unat (2 :: uint8_t) < TMR_COUNT (boot 4 ())"
    by (simp add: TMR_COUNT_def boot_def SysTickTimer_Init_def)
  have p: "(0 :: uint32_t) < 3" by simp
  have u: "[0..<5] = [0, 1, 2, 3, 4]" by (simp add: upt_rec)
  show ?thesis
    using f v p start_once_expires_once [OF f v p, of 5] by (simp add: u)
qed

section \<open>Auto-reload timers\<close>

text \<open>
  C2. For a valid identifier: after \<^verbatim>\<open>bsp_StartAutoTimer(tid, p)\<close>, with
  \<^verbatim>\<open>bsp_CheckTimer(tid)\<close> called after every tick, the call after tick \<open>k\<close> returns 1
  exactly when \<open>p\<close> divides \<open>k\<close>, for any number \<open>n\<close> of ticks (for \<open>p = 0\<close> that is
  never: 0 divides no positive number). Right after tick \<open>n + 1\<close>, before the check, the
  slot has \<open>PreLoad = p\<close>; if \<open>p\<close> divides \<open>n + 1\<close> its \<open>Flag\<close> is 1 and its \<open>Count\<close> is
  already \<open>p\<close> again, otherwise its \<open>Flag\<close> is 0 and \<open>Count\<close> is what is left of the
  period.
\<close>

theorem start_auto_periodic:
  assumes "hooks_frame h" and "unat tid < TMR_COUNT s"
  shows "\<exists>s1. bsp_StartAutoTimer tid p s = Returns s1
           \<and> fst (poll h tid n s1) = map (\<lambda>k. if unat p dvd Suc k then 1 else 0) [0..<n]
           \<and> (let t = s_tTmr (SysTick_ISR h (snd (poll h tid n s1))) ! unat tid
              in PreLoad t = p
                 \<and> (if unat p dvd Suc n then Flag t = 1 \<and> Count t = p
                     else Flag t = 0 \<and> unat (Count t) = unat p - Suc n mod unat p))"
proof -
  define s1 where "s1 = s\<lparr>s_tTmr := (s_tTmr s)[unat tid :=
             (s_tTmr s ! unat tid)\<lparr>Count := p, PreLoad := p, Flag := 0, Mode := TMR_AUTO_MODE\<rparr>]\<rparr>"
  have a: "bsp_StartAutoTimer tid p s = Returns s1"
    using assms(2) by (simp add: bsp_StartAutoTimer_def s1_def)
  have v: "unat tid < TMR_COUNT s1"
    using assms(2) by (simp add: s1_def TMR_COUNT_def)
  let ?t = "s_tTmr s1 ! unat tid"
  let ?s2 = "snd (poll h tid n s1)"
  let ?t2 = "snd (slot_poll n ?t)"
  have t: "Mode ?t = TMR_AUTO_MODE" "Flag ?t = 0" "Count ?t = p" "PreLoad ?t = p"
    using assms(2) by (simp_all add: s1_def TMR_COUNT_def)
  note ps = poll_slot [OF assms(1) v, of n]
  have v2: "unat tid < length (s_tTmr ?s2)"
    using ps v by (simp add: TMR_COUNT_def)
  have nx: "s_tTmr (SysTick_ISR h ?s2) ! unat tid = bsp_SoftTimerDec ?t2"
    using ps v2 by (simp add: ISR_tmr [OF assms(1)])
  show ?thesis
  proof (cases "p = 0")
    case True
    have z: "slot_poll n ?t = (replicate n 0, ?t)"
      using t True by (simp add: slot_poll_inert)
    have m: "map (\<lambda>k. if unat p dvd Suc k then 1 else 0) [0..<n] = replicate n (0 :: uint8_t)"
      using True by (simp add: map_replicate_const)
    show ?thesis
      using a ps nx t True z m by (simp add: SoftTimerDec_inert)
  next
    case False
    then have P: "0 < unat p" by (simp add: unat_gt_0)
    have c: "unat (Count ?t) + 0 = unat (PreLoad ?t)" "0 < unat (PreLoad ?t)"
      using t P by simp_all
    note sa = slot_poll_auto [OF t(1,2) c, of n, unfolded t(4)]
    have r: "fst (poll h tid n s1) = map (\<lambda>k. if unat p dvd Suc k then 1 else 0) [0..<n]"
      using ps sa by simp
    have cl: "unat (Count ?t2) = unat p - n mod unat p" using sa by simp
    have cnz: "Count ?t2 \<noteq> 0"
      using cl P by (metis mod_less_divisor unat_eq_0 zero_less_diff less_numeral_extra(3))
    have one: "(Count ?t2 = 1) = (unat p dvd Suc n)"
    proof -
      have "(Count ?t2 = 1) = (unat p - n mod unat p = Suc 0)"
        using cl by (simp add: unat_eq_1_iff [symmetric])
      also have "\<dots> = (Suc (n mod unat p) = unat p)"
        using P mod_less_divisor [OF P, of n] by arith
      also have "\<dots> = (unat p dvd Suc n)"
        using P by (auto simp add: mod_Suc dvd_eq_mod_eq_0)
      finally show ?thesis .
    qed
    have d: "Flag (bsp_SoftTimerDec ?t2) = (if unat p dvd Suc n then 1 else 0)"
      "PreLoad (bsp_SoftTimerDec ?t2) = p"
      "Count (bsp_SoftTimerDec ?t2) = (if unat p dvd Suc n then p else Count ?t2 - 1)"
      using sa cnz one by (auto simp add: bsp_SoftTimerDec_def Let_def word_gt_0)
    have cn: "unat (Count (bsp_SoftTimerDec ?t2)) = unat p - Suc n mod unat p"
    proof (cases "unat p dvd Suc n")
      case True
      then show ?thesis using d(3) by (simp add: dvd_eq_mod_eq_0)
    next
      case False
      then have "Suc (n mod unat p) \<noteq> unat p"
        using P by (auto simp add: mod_Suc dvd_eq_mod_eq_0)
      then have "Suc n mod unat p = Suc (n mod unat p)"
        by (simp add: mod_Suc)
      then show ?thesis
        using False d(3) cl unat_minus_one [OF cnz] by simp
    qed
    show ?thesis
      using a r nx d cn by (auto simp add: Let_def split: if_splits)
  qed
qed


theorem start_auto_periodic_witness:
  "hooks_frame (idle_hooks :: unit hooks) \<and> unat (1 :: uint8_t) < TMR_COUNT (boot 4 ())
   \<and> (\<exists>s1. bsp_StartAutoTimer 1 2 (boot 4 ()) = Returns s1
           \<and> fst (poll idle_hooks 1 5 s1) = [0, 1, 0, 1, 0]
           \<and> PreLoad (s_tTmr (SysTick_ISR idle_hooks (snd (poll idle_hooks 1 5 s1))) ! 1) = 2
           \<and> Flag (s_tTmr (SysTick_ISR idle_hooks (snd (poll idle_hooks 1 5 s1))) ! 1) = 1
           \<and> Count (s_tTmr (SysTick_ISR idle_hooks (snd (poll idle_hooks 1 5 s1))) ! 1) = 2)"
proof -
  have f: "hooks_frame (idle_hooks :: unit hooks)"
    by (rule idle_frame)
  have v: "unat (1 :: uint8_t) < TMR_COUNT (boot 4 ())"
    by (simp add: TMR_COUNT_def boot_def SysTickTimer_Init_def)
  have u: "[0..<5] = [0, 1, 2, 3, 4]" by (simp add: upt_rec)
  have e: "(2 :: nat) dvd Suc 5" "\<not> (2 :: nat) dvd Suc 0" "(2 :: nat) dvd Suc 1"
    "\<not> (2 :: nat) dvd Suc 2" "(2 :: nat) dvd Suc 3" "\<not> (2 :: nat) dvd Suc 4"
    by simp_all
  show ?thesis
    using f v start_auto_periodic [OF f v, of 2 5] by (simp add: u e Let_def)
qed

section \<open>Stopping a timer\<close>

text \<open>
  C8. For a valid identifier, \<^verbatim>\<open>bsp_StopTimer(tid)\<close> returns with the slot's \<open>Count\<close>
  and \<open>Flag\<close> at 0 and its \<open>Mode\<close> one-shot, whatever the slot held before. After any
  number \<open>n\<close> of ticks \<^verbatim>\<open>bsp_CheckTimer(tid)\<close> returns 0, whether it is called once
  after the \<open>n\<close> ticks or after each of them.
\<close>

theorem stop_disarms:
  assumes "hooks_frame h" and "unat tid < TMR_COUNT s"
  shows "\<exists>s1. bsp_StopTimer tid s = Returns s1
           \<and> Count (s_tTmr s1 ! unat tid) = 0
           \<and> Flag (s_tTmr s1 ! unat tid) = 0
           \<and> Mode (s_tTmr s1 ! unat tid) = TMR_ONCE_MODE
           \<and> fst (bsp_CheckTimer tid (run_ticks h n s1)) = 0
           \<and> fst (poll h tid n s1) = replicate n 0"
proof -
  define s1 where "s1 = s\<lparr>s_tTmr := (s_tTmr s)[unat tid :=
             (s_tTmr s ! unat tid)\<lparr>Count := 0, Flag := 0, Mode := TMR_ONCE_MODE\<rparr>]\<rparr>"
  have a: "bsp_StopTimer tid s = Returns s1"
    using assms(2) by (simp add: bsp_StopTimer_def s1_def)
  have v: "unat tid < TMR_COUNT s1"
    using assms(2) by (simp add: s1_def TMR_COUNT_def)
  have t: "Count (s_tTmr s1 ! unat tid) = 0" "Flag (s_tTmr s1 ! unat tid) = 0"
    "Mode (s_tTmr s1 ! unat tid) = TMR_ONCE_MODE"
    using assms(2) by (simp_all add: s1_def TMR_COUNT_def)
  note i = inert_slot [OF assms(1) v t(1,2), of n]
  show ?thesis
    using a i t by simp
qed

theorem stop_disarms_witness:
  "hooks_frame (idle_hooks :: unit hooks)
   \<and> unat (0 :: uint8_t) < TMR_COUNT
        \<lparr>s_uiDelayCount = 0, s_ucTimeOutFlag = 0,
         s_tTmr = [\<lparr>Mode = TMR_AUTO_MODE, Flag = 1, Count = 2, PreLoad = 2\<rparr>],
         g_iRunTime = 7, s_count = 7\<rparr>
   \<and> (\<exists>s1. bsp_StopTimer 0
              \<lparr>s_uiDelayCount = 0, s_ucTimeOutFlag = 0,
               s_tTmr = [\<lparr>Mode = TMR_AUTO_MODE, Flag = 1, Count = 2, PreLoad = 2\<rparr>],
               g_iRunTime = 7, s_count = 7\<rparr> = Returns s1
           \<and> Count (s_tTmr s1 ! unat (0 :: uint8_t)) = 0
           \<and> Flag (s_tTmr s1 ! unat (0 :: uint8_t)) = 0
           \<and> Mode (s_tTmr s1 ! unat (0 :: uint8_t)) = TMR_ONCE_MODE
           \<and> fst (bsp_CheckTimer 0 (run_ticks idle_hooks 3 s1)) = 0
           \<and> fst (poll idle_hooks 0 3 s1) = [0, 0, 0])"
proof -
  let ?s = "\<lparr>s_uiDelayCount = 0, s_ucTimeOutFlag = 0,
         s_tTmr = [\<lparr>Mode = TMR_AUTO_MODE, Flag = 1, Count = 2, PreLoad = 2\<rparr>],
         g_iRunTime = 7, s_count = 7\<rparr> :: sys"
  have f: "hooks_frame (idle_hooks :: unit hooks)"
    by (rule idle_frame)
  have v: "unat (0 :: uint8_t) < TMR_COUNT ?s"
    by (simp add: TMR_COUNT_def)
  have r: "replicate 3 (0 :: uint8_t) = [0, 0, 0]"
    by (simp add: numeral_3_eq_3)
  show ?thesis
    using f v stop_disarms [OF f v, of 3] by (simp only: r)
qed

section \<open>Period zero\<close>

text \<open>
  C10. For a valid identifier, a slot armed with period 0, by \<^verbatim>\<open>bsp_StartTimer\<close> or by
  \<^verbatim>\<open>bsp_StartAutoTimer\<close>, never fires: after any number \<open>n\<close> of ticks its \<open>Count\<close>
  and \<open>Flag\<close> are still 0 and \<^verbatim>\<open>bsp_CheckTimer\<close> returns 0, called once after the
  \<open>n\<close> ticks or after each of them. In the second case the slot is in auto-reload mode all
  the while.
\<close>

theorem period_zero_inert:
  assumes "hooks_frame h" and "unat tid < TMR_COUNT s"
  shows "(\<exists>s1. bsp_StartTimer tid 0 s = Returns s1
            \<and> fst (poll h tid n s1) = replicate n 0
            \<and> fst (bsp_CheckTimer tid (run_ticks h n s1)) = 0
            \<and> Count (s_tTmr (run_ticks h n s1) ! unat tid) = 0
            \<and> Flag (s_tTmr (run_ticks h n s1) ! unat tid) = 0)
       \<and> (\<exists>s2. bsp_StartAutoTimer tid 0 s = Returns s2
            \<and> fst (poll h tid n s2) = replicate n 0
            \<and> fst (bsp_CheckTimer tid (run_ticks h n s2)) = 0
            \<and> Count (s_tTmr (run_ticks h n s2) ! unat tid) = 0
            \<and> Flag (s_tTmr (run_ticks h n s2) ! unat tid) = 0
            \<and> Mode (s_tTmr (run_ticks h n s2) ! unat tid) = TMR_AUTO_MODE)"
proof -
  define s1 where "s1 = s\<lparr>s_tTmr := (s_tTmr s)[unat tid :=
             (s_tTmr s ! unat tid)\<lparr>Count := 0, PreLoad := 0, Flag := 0, Mode := TMR_ONCE_MODE\<rparr>]\<rparr>"
  define s2 where "s2 = s\<lparr>s_tTmr := (s_tTmr s)[unat tid :=
             (s_tTmr s ! unat tid)\<lparr>Count := 0, PreLoad := 0, Flag := 0, Mode := TMR_AUTO_MODE\<rparr>]\<rparr>"
  have a: "bsp_StartTimer tid 0 s = Returns s1" "bsp_StartAutoTimer tid 0 s = Returns s2"
    using assms(2) by (simp_all add: bsp_StartTimer_def bsp_StartAutoTimer_def s1_def s2_def)
  have v: "unat tid < TMR_COUNT s1" "unat tid < TMR_COUNT s2"
    using assms(2) by (simp_all add: s1_def s2_def TMR_COUNT_def)
  have t1: "Count (s_tTmr s1 ! unat tid) = 0" "Flag (s_tTmr s1 ! unat tid) = 0"
    using assms(2) by (simp_all add: s1_def TMR_COUNT_def)
  have t2: "Count (s_tTmr s2 ! unat tid) = 0" "Flag (s_tTmr s2 ! unat tid) = 0"
    "Mode (s_tTmr s2 ! unat tid) = TMR_AUTO_MODE"
    using assms(2) by (simp_all add: s2_def TMR_COUNT_def)
  note i1 = inert_slot [OF assms(1) v(1) t1, of n]
  note i2 = inert_slot [OF assms(1) v(2) t2(1,2), of n]
  show ?thesis
    using a i1 i2 t1 t2 by simp
qed

theorem period_zero_inert_witness:
  "hooks_frame (idle_hooks :: unit hooks) \<and> unat (1 :: uint8_t) < TMR_COUNT (boot 4 ())
   \<and> (\<exists>s1. bsp_StartTimer 1 0 (boot 4 ()) = Returns s1
            \<and> fst (poll idle_hooks 1 3 s1) = [0, 0, 0]
            \<and> fst (bsp_CheckTimer 1 (run_ticks idle_hooks 3 s1)) = 0
            \<and> Count (s_tTmr (run_ticks idle_hooks 3 s1) ! unat (1 :: uint8_t)) = 0
            \<and> Flag (s_tTmr (run_ticks idle_hooks 3 s1) ! unat (1 :: uint8_t)) = 0)
   \<and> (\<exists>s2. bsp_StartAutoTimer 1 0 (boot 4 ()) = Returns s2
            \<and> fst (poll idle_hooks 1 3 s2) = [0, 0, 0]
            \<and> fst (bsp_CheckTimer 1 (run_ticks idle_hooks 3 s2)) = 0
            \<and> Count (s_tTmr (run_ticks idle_hooks 3 s2) ! unat (1 :: uint8_t)) = 0
            \<and> Flag (s_tTmr (run_ticks idle_hooks 3 s2) ! unat (1 :: uint8_t)) = 0
            \<and> Mode (s_tTmr (run_ticks idle_hooks 3 s2) ! unat (1 :: uint8_t)) = TMR_AUTO_MODE)"
proof -
  have f: "hooks_frame (idle_hooks :: unit hooks)"
    by (rule idle_frame)
  have v: "unat (1 :: uint8_t) < TMR_COUNT (boot 4 ())"
    by (simp add: TMR_COUNT_def boot_def SysTickTimer_Init_def)
  have r: "replicate 3 (0 :: uint8_t) = [0, 0, 0]"
    by (simp add: numeral_3_eq_3)
  show ?thesis
    using f v period_zero_inert [OF f v, of 3] by (simp only: r)
qed

section \<open>The run-time clock\<close>

text \<open>
  C4, as amended. \<^verbatim>\<open>g_iRunTime\<close> starts at 0 and after \<open>n\<close> ticks reads
  \<open>n mod 0x7FFFFFFF\<close>: each tick adds exactly 1, except that the tick which would reach
  \<open>0x7FFFFFFF\<close> stores 0 instead. So after \<open>0x7FFFFFFE\<close> ticks it reads \<open>0x7FFFFFFE\<close>,
  the next tick (number \<open>0x7FFFFFFF\<close>) takes it to 0, and \<open>0x7FFFFFFF\<close> is never a
  value of the clock. The wrap point \<open>0x7FFFFFFF\<close> is the largest \<^verbatim>\<open>int32_t\<close> itself, not
  one less.
\<close>

theorem run_time_clock:
  assumes "hooks_frame h"
  shows "g_iRunTime (boot N e) = 0
     \<and> sint (g_iRunTime (run_ticks h n (boot N e))) = int (n mod 2147483647)
     \<and> sint (g_iRunTime (run_ticks h (Suc n) (boot N e))) =
         (if sint (g_iRunTime (run_ticks h n (boot N e))) = 2147483646 then 0
          else sint (g_iRunTime (run_ticks h n (boot N e))) + 1)
     \<and> sint (g_iRunTime (run_ticks h 2147483646 (boot N e))) = 2147483646
     \<and> sint (g_iRunTime (run_ticks h 2147483647 (boot N e))) = 0
     \<and> g_iRunTime (run_ticks h n (boot N e)) \<noteq> 0x7FFFFFFF
     \<and> sint (w :: int32_t) \<le> sint (0x7FFFFFFF :: int32_t)"
proof -
  have mx: "sint (w :: int32_t) \<le> sint (0x7FFFFFFF :: int32_t)"
    using sint_lt [of w] by simp
  have z: "unat (g_iRunTime (boot N e)) < 2147483647"
    by (simp add: boot_clock)
  have u: "unat (g_iRunTime (run_ticks h k (boot N e))) = k mod 2147483647" for k
    using clock_after_ticks [OF assms z, of k] by (simp add: boot_clock)
  have s: "sint (g_iRunTime (run_ticks h k (boot N e))) = int (k mod 2147483647)" for k
  proof -
    have "k mod 2147483647 < (2147483647 :: nat)" by simp
    then have lt: "unat (g_iRunTime (run_ticks h k (boot N e))) < 2147483648"
      unfolding u by linarith
    show ?thesis by (simp only: sint_small [OF lt] u)
  qed
  have nx: "Suc n mod 2147483647 = (if n mod 2147483647 = 2147483646 then 0 else n mod 2147483647 + 1)"
    by (simp add: mod_Suc)
  have ne: "g_iRunTime (run_ticks h n (boot N e)) \<noteq> 0x7FFFFFFF"
  proof
    assume "g_iRunTime (run_ticks h n (boot N e)) = 0x7FFFFFFF"
    then have "unat (g_iRunTime (run_ticks h n (boot N e))) = 2147483647" by simp
    then have "n mod 2147483647 = (2147483647 :: nat)" unfolding u .
    moreover have "n mod 2147483647 < (2147483647 :: nat)" by simp
    ultimately show False by linarith
  qed
  show ?thesis
    unfolding s nx using ne mx by (simp add: boot_clock del: run_ticks.simps)
qed

theorem run_time_clock_witness:
  "hooks_frame (idle_hooks :: unit hooks)
   \<and> g_iRunTime (boot 4 ()) = 0
   \<and> sint (g_iRunTime (run_ticks idle_hooks 12 (boot 4 ()))) = 12
   \<and> sint (g_iRunTime (run_ticks idle_hooks 2147483646 (boot 4 ()))) = 2147483646
   \<and> sint (g_iRunTime (run_ticks idle_hooks 2147483647 (boot 4 ()))) = 0
   \<and> g_iRunTime (run_ticks idle_hooks 12 (boot 4 ())) \<noteq> 0x7FFFFFFF
   \<and> sint (0x80000000 :: int32_t) \<le> sint (0x7FFFFFFF :: int32_t)"
proof -
  have f: "hooks_frame (idle_hooks :: unit hooks)"
    by (rule idle_frame)
  show ?thesis
    using f run_time_clock [OF f, of 4 "()" 12 "0x80000000"] by simp
qed

text \<open>
  The claim as written has the clock read \<open>MAX - 1\<close> after \<open>MAX\<close> ticks. After
  \<open>0x7FFFFFFF\<close> ticks it reads 0, and after \<open>0x7FFFFFFE\<close> ticks (the wrap point read as
  one less than the largest \<^verbatim>\<open>int32_t\<close>) it reads \<open>0x7FFFFFFE\<close>.
\<close>

theorem clock_after_max_ticks_counterexample:
  "sint (g_iRunTime (run_ticks idle_hooks 2147483647 (boot 4 ()))) \<noteq> 2147483647 - 1
   \<and> sint (g_iRunTime (run_ticks idle_hooks 2147483646 (boot 4 ()))) \<noteq> 2147483646 - 1"
proof -
  have f: "hooks_frame (idle_hooks :: unit hooks)"
    by (rule idle_frame)
  have z: "unat (g_iRunTime (boot 4 ())) < 2147483647"
    by (simp add: boot_clock)
  have a: "unat (g_iRunTime (run_ticks idle_hooks 2147483647 (boot 4 ()))) = 0"
    using clock_after_ticks [OF f z, of 2147483647] by (simp add: boot_clock)
  have b: "unat (g_iRunTime (run_ticks idle_hooks 2147483646 (boot 4 ()))) = 2147483646"
    using clock_after_ticks [OF f z, of 2147483646] by (simp add: boot_clock)
  have la: "unat (g_iRunTime (run_ticks idle_hooks 2147483647 (boot 4 ()))) < 2147483648"
    and lb: "unat (g_iRunTime (run_ticks idle_hooks 2147483646 (boot 4 ()))) < 2147483648"
    unfolding a b by simp_all
  have "sint (g_iRunTime (run_ticks idle_hooks 2147483647 (boot 4 ()))) = int 0"
    by (simp only: sint_small [OF la] a)
  moreover have "sint (g_iRunTime (run_ticks idle_hooks 2147483646 (boot 4 ()))) = int 2147483646"
    by (simp only: sint_small [OF lb] b)
  ultimately show ?thesis by simp
qed

section \<open>Elapsed time\<close>

text \<open>
  C5, as amended. \<^verbatim>\<open>bsp_CheckRunTime(_LastTime)\<close> returns \<open>now - last\<close> when
  \<open>now \<ge> last\<close> and \<open>0x7FFFFFFF - last + now\<close> otherwise, as integers, whenever that
  value is an \<^verbatim>\<open>int32_t\<close> (it is for all times the clock can show, which are never
  negative). The wrap point is the constant \<open>0x7FFFFFFF\<close> of the code, not a parameter:
  with \<open>now = 5\<close> and \<open>last = 10\<close> the function returns
  \<open>0x7FFFFFFF - 10 + 5 = 2147483642\<close>, and with \<open>now = 15\<close> and \<open>last = 10\<close> it returns 5.
\<close>

theorem check_run_time_elapsed:
  "(let d = (if sint past \<le> sint (g_iRunTime s) then sint (g_iRunTime s) - sint past
             else 2147483647 - sint past + sint (g_iRunTime s))
    in - 2147483648 \<le> d \<and> d \<le> 2147483647 \<longrightarrow> sint (bsp_CheckRunTime s past) = d)
   \<and> sint (bsp_CheckRunTime (s\<lparr>g_iRunTime := 5\<rparr>) 10) = 2147483642
   \<and> sint (bsp_CheckRunTime (s\<lparr>g_iRunTime := 15\<rparr>) 10) = 5"
proof -
  have g: "sint (bsp_CheckRunTime r q) = elapsed_since 2147483647 (sint (g_iRunTime r)) (sint q)"
    if "- 2147483648 \<le> elapsed_since 2147483647 (sint (g_iRunTime r)) (sint q)"
      and "elapsed_since 2147483647 (sint (g_iRunTime r)) (sint q) \<le> 2147483647"
    for r :: "'a sys_scheme" and q
    using sint_of_int_32 [OF that] by (simp add: CheckRunTime_word)
  have a: "sint (bsp_CheckRunTime (s\<lparr>g_iRunTime := 5\<rparr>) 10) = 2147483642"
    using g [of "s\<lparr>g_iRunTime := 5\<rparr>" 10] by (simp add: elapsed_since_def)
  have b: "sint (bsp_CheckRunTime (s\<lparr>g_iRunTime := 15\<rparr>) 10) = 5"
    using g [of "s\<lparr>g_iRunTime := 15\<rparr>" 10] by (simp add: elapsed_since_def)
  show ?thesis
    using g [of s past] a b by (simp add: elapsed_since_def Let_def)
qed

theorem check_run_time_elapsed_witness:
  "- 2147483648 \<le> 2147483647 - sint (4000 :: int32_t) + sint (g_iRunTime ((boot 4 ())\<lparr>g_iRunTime := 70\<rparr>))
   \<and> 2147483647 - sint (4000 :: int32_t) + sint (g_iRunTime ((boot 4 ())\<lparr>g_iRunTime := 70\<rparr>)) \<le> 2147483647
   \<and> sint (bsp_CheckRunTime ((boot 4 ())\<lparr>g_iRunTime := 70\<rparr>) 4000) = 2147479717
   \<and> sint (bsp_CheckRunTime ((boot 4 ())\<lparr>g_iRunTime := 5\<rparr>) 10) = 2147483642
   \<and> sint (bsp_CheckRunTime ((boot 4 ())\<lparr>g_iRunTime := 15\<rparr>) 10) = 5"
  using check_run_time_elapsed [of 4000 "(boot 4 ())\<lparr>g_iRunTime := 70\<rparr>"]
    check_run_time_elapsed [of 10 "boot 4 ()"]
  by (simp add: Let_def)

text \<open>
  The claim as written has the function return 15 for \<open>now = 5\<close>, \<open>last = 10\<close> under a
  wrap point of 20. The code has no such parameter: at \<open>now = 5\<close>, \<open>last = 10\<close> it returns
  2147483642.
\<close>

theorem check_run_time_sentinel_counterexample:
  "sint (bsp_CheckRunTime ((boot 4 ())\<lparr>g_iRunTime := 5\<rparr>) 10) \<noteq> 15"
proof -
  have "sint (bsp_CheckRunTime ((boot 4 ())\<lparr>g_iRunTime := 5\<rparr>) 10)
      = sint (word_of_int 2147483642 :: int32_t)"
    by (simp add: CheckRunTime_word elapsed_since_def)
  also have "\<dots> = 2147483642"
    by (rule sint_of_int_32) simp_all
  finally show ?thesis by simp
qed

section \<open>The blocking millisecond delay\<close>

text \<open>
  C6. \<^verbatim>\<open>bsp_DelayMS(0)\<close> returns at once, after 0 ticks and with the state as it was:
  nothing is armed. \<^verbatim>\<open>bsp_DelayMS(1)\<close> is \<^verbatim>\<open>bsp_DelayMS(2)\<close>: same ticks, same final
  state. For \<open>n \<ge> 2\<close> (and hooks that leave the module's variables alone) the countdown is
  armed with \<open>s_uiDelayCount = n\<close> and \<open>s_ucTimeOutFlag = 0\<close>, the call does return, after
  exactly \<open>n\<close> ticks, with the countdown at 0 and the flag at 1, and after any smaller
  number \<open>k\<close> of ticks the flag is still 0 and the countdown not yet 0.
\<close>

theorem delay_ms:
  "bsp_DelayMS h 0 s = Some (0, s)
   \<and> bsp_DelayMS h 1 s = bsp_DelayMS h 2 s
   \<and> (hooks_frame h \<and> 2 \<le> n \<longrightarrow>
        s_uiDelayCount (DelayMS_arm n s) = n
        \<and> s_ucTimeOutFlag (DelayMS_arm n s) = 0
        \<and> bsp_DelayMS h n s = Some (unat n, run_ticks h (unat n) (DelayMS_arm n s))
        \<and> s_uiDelayCount (run_ticks h (unat n) (DelayMS_arm n s)) = 0
        \<and> s_ucTimeOutFlag (run_ticks h (unat n) (DelayMS_arm n s)) = 1
        \<and> (k < unat n \<longrightarrow>
             s_ucTimeOutFlag (run_ticks h k (DelayMS_arm n s)) = 0
             \<and> s_uiDelayCount (run_ticks h k (DelayMS_arm n s)) \<noteq> 0))"
proof -
  have a: "bsp_DelayMS h 0 s = Some (0, s)"
    by (simp add: bsp_DelayMS_def)
  have b: "bsp_DelayMS h 1 s = bsp_DelayMS h 2 s"
    by (simp add: bsp_DelayMS_def)
  have c: "s_uiDelayCount (DelayMS_arm n s) = n
        \<and> s_ucTimeOutFlag (DelayMS_arm n s) = 0
        \<and> bsp_DelayMS h n s = Some (unat n, run_ticks h (unat n) (DelayMS_arm n s))
        \<and> s_uiDelayCount (run_ticks h (unat n) (DelayMS_arm n s)) = 0
        \<and> s_ucTimeOutFlag (run_ticks h (unat n) (DelayMS_arm n s)) = 1
        \<and> (k < unat n \<longrightarrow>
             s_ucTimeOutFlag (run_ticks h k (DelayMS_arm n s)) = 0
             \<and> s_uiDelayCount (run_ticks h k (DelayMS_arm n s)) \<noteq> 0)"
    if f: "hooks_frame h" and n: "2 \<le> n"
  proof -
    let ?a = "DelayMS_arm n s"
    have ar: "s_uiDelayCount ?a = n" "s_ucTimeOutFlag ?a = 0"
      by (simp_all add: DelayMS_arm_def)
    have u: "2 \<le> unat n" using n by (simp add: word_le_nat_alt)
    then obtain m where m: "unat n = Suc m" by (cases "unat n") simp_all
    have n01: "n \<noteq> 0" "n \<noteq> 1" using u by auto
    have w: "DelayMS_wait h 0 ?a = Some (unat n, run_ticks h (unat n) ?a)"
      using wait_returns [OF f ar(2), of m 0] m ar(1) by simp
    have r: "bsp_DelayMS h n s = Some (unat n, run_ticks h (unat n) ?a)"
      using w n01 by (simp add: bsp_DelayMS_def)
    have e: "unat (s_uiDelayCount (run_ticks h (unat n) ?a)) = 0"
      "s_ucTimeOutFlag (run_ticks h (unat n) ?a) = 1"
      using delay_countdown [OF f ar(2), of "unat n"] ar(1) u by simp_all
    have e0: "s_uiDelayCount (run_ticks h (unat n) ?a) = 0"
      using e(1) by (simp add: unat_eq_0)
    have l: "s_ucTimeOutFlag (run_ticks h k ?a) = 0 \<and> s_uiDelayCount (run_ticks h k ?a) \<noteq> 0"
      if k: "k < unat n"
    proof -
      have "unat (s_uiDelayCount (run_ticks h k ?a)) = unat n - k"
        and "s_ucTimeOutFlag (run_ticks h k ?a) = 0"
        using delay_countdown [OF f ar(2), of k] ar(1) k by simp_all
      then show ?thesis using k by (auto simp add: unat_eq_0 [symmetric] simp del: unat_eq_0)
    qed
    show ?thesis using ar r e0 e(2) l by blast
  qed
  show ?thesis using a b c by blast
qed

theorem delay_ms_witness:
  "hooks_frame (idle_hooks :: unit hooks) \<and> (2 :: uint32_t) \<le> 3 \<and> (2 :: nat) < unat (3 :: uint32_t)
   \<and> bsp_DelayMS idle_hooks 0 (boot 4 ()) = Some (0, boot 4 ())
   \<and> bsp_DelayMS idle_hooks 1 (boot 4 ()) = bsp_DelayMS idle_hooks 2 (boot 4 ())
   \<and> bsp_DelayMS idle_hooks 3 (boot 4 ()) = Some (3, run_ticks idle_hooks 3 (DelayMS_arm 3 (boot 4 ())))
   \<and> s_uiDelayCount (run_ticks idle_hooks 3 (DelayMS_arm 3 (boot 4 ()))) = 0
   \<and> s_ucTimeOutFlag (run_ticks idle_hooks 3 (DelayMS_arm 3 (boot 4 ()))) = 1
   \<and> s_ucTimeOutFlag (run_ticks idle_hooks 2 (DelayMS_arm 3 (boot 4 ()))) = 0"
proof -
  have f: "hooks_frame (idle_hooks :: unit hooks)"
    by (rule idle_frame)
  have n: "(2 :: uint32_t) \<le> 3" by simp
  have k: "(2 :: nat) < unat (3 :: uint32_t)" by simp
  show ?thesis
    using f n k delay_ms [of idle_hooks "boot 4 ()" 3 2] by simp
qed

section \<open>The busy-wait microsecond delay\<close>

text \<open>
  C7. The claim has \<^verbatim>\<open>bsp_DelayUS(n)\<close> return only once the counter has gone down by
  \<open>n\<close> microseconds' worth of ticks, never early. The code computes its target as the
  \<^verbatim>\<open>uint32_t\<close> product \<open>n * (SystemCoreClock / 1000000)\<close> and does not guard it against
  overflow. At 72 MHz a request of 59652324 microseconds is 4294967328 ticks; the
  product wraps to 32, and with the counter read as 1000 and then 900 the call returns
  at once, after 100 ticks. The comments of the function call the target the number of
  ticks needed and have the loop end when the time to delay is exceeded or reached, and
  its header puts no limit on \<open>n\<close>: here the code does not do what it says.
\<close>

theorem delay_us_returns_early:
  "bsp_DelayUS 71999 72000000 59652324 [1000, 900] = Some (100, 1)
   \<and> elapsed_ticks 71999 [1000, 900] = 100
   \<and> (59652324 :: uint32_t) * (72000000 div 1000000) = 32
   \<and> (100 :: int) * 1000000 < int (unat (59652324 :: uint32_t) * unat (72000000 :: uint32_t))"
  by (simp add: bsp_DelayUS_def counter_decrease_def)

section \<open>Out-of-range timer identifiers\<close>

text \<open>
  C9. For an identifier that is not below the number of slots, \<^verbatim>\<open>bsp_StartTimer\<close>,
  \<^verbatim>\<open>bsp_StartAutoTimer\<close> and \<^verbatim>\<open>bsp_StopTimer\<close> do not return: they halt in the state
  they were called in, so no slot is written. \<^verbatim>\<open>bsp_CheckTimer\<close> returns 0 (not
  expired) and leaves the state as it was.
\<close>

theorem out_of_range_id:
  "TMR_COUNT s \<le> unat tid \<Longrightarrow>
     bsp_StartTimer tid p s = Halts s
     \<and> bsp_StartAutoTimer tid p s = Halts s
     \<and> bsp_StopTimer tid s = Halts s
     \<and> bsp_CheckTimer tid s = (0, s)"
  by (simp add: bsp_StartTimer_def bsp_StartAutoTimer_def bsp_StopTimer_def
      bsp_CheckTimer_def)

theorem out_of_range_id_witness:
  "TMR_COUNT (boot 4 ()) \<le> unat (4 :: uint8_t)
   \<and> bsp_StartTimer 4 100 (boot 4 ()) = Halts (boot 4 ())
   \<and> bsp_StartAutoTimer 4 100 (boot 4 ()) = Halts (boot 4 ())
   \<and> bsp_StopTimer 4 (boot 4 ()) = Halts (boot 4 ())
   \<and> bsp_CheckTimer 4 (boot 4 ()) = (0, boot 4 ())"
proof -
  have h: "TMR_COUNT (boot 4 ()) \<le> unat (4 :: uint8_t)"
    by (simp add: TMR_COUNT_def boot_def SysTickTimer_Init_def)
  show ?thesis
    using h out_of_range_id [OF h, of 100] by simp
qed

end
